theory Spec2Isabelle
  imports Complex_Main
begin

section \<open>Image tools\<close>

subsection \<open>Supported extensions\<close>


text \<open>
  A character is a code point below 256. \<^verbatim>\<open>str.lower\<close> moves the capital letters of
  that range, ASCII and Latin-1, 32 places up.
\<close>

definition lower_char :: "char \<Rightarrow> char" where
  "lower_char c =
     (let n = (of_char c :: nat)
      in if (65 \<le> n \<and> n \<le> 90) \<or> (192 \<le> n \<and> n \<le> 222 \<and> n \<noteq> 215) then char_of (n + 32)
         else c)"

definition lower :: "string \<Rightarrow> string" where
  "lower s = map lower_char s"

text \<open>
  The second component of \<^verbatim>\<open>os.path.splitext\<close> (POSIX): the extension starts at the last
  dot of the last path component, unless only dots come before it in that component.
\<close>

definition basename :: "string \<Rightarrow> string" where
  "basename p = rev (takeWhile (\<lambda>c. c \<noteq> CHR ''/'') (rev p))"

definition splitext_ext :: "string \<Rightarrow> string" where
  "splitext_ext p =
     (let b = basename p;
          suf = rev (takeWhile (\<lambda>c. c \<noteq> CHR ''.'') (rev b));
          stem = take (length b - length suf - 1) b
      in if CHR ''.'' \<in> set b \<and> (\<exists>c \<in> set stem. c \<noteq> CHR ''.'') then CHR ''.'' # suf else [])"


subsection \<open>Images\<close>

text \<open>
  A pixel buffer is kept symbolically: where it was decoded from and which operations of the
  imaging library produced it.
\<close>

datatype pixbuf =
    Decoded string
  | Transposed pixbuf
  | Lanczos pixbuf int int
  | Converted pixbuf string

record image =
  img_w :: int
  img_h :: int
  img_buf :: pixbuf
  exif_orientation :: nat

datatype error =
    EmptyInput
  | InvalidOrientation
  | Unreadable string
  | ZeroDivision

record composed =
  canvas_w :: int
  canvas_h :: int
  canvas_mode :: string
  canvas_bg :: "int list"
  pastes :: "(int \<times> int \<times> image) list"

text \<open>What an image file holds: the image encoded and the quality it was encoded with.\<close>

record content =
  saved_img :: composed
  saved_mode :: string
  saved_quality :: "int option"

text \<open>A file on disk is whole, or cut short by a write that broke off.\<close>

datatype disk_file = Whole content | Cut

text \<open>
  The outside world: which paths decode to which image, what the colour parser makes of a
  string, which files and directories exist, which paths a write goes through on, and
  which paths can at least be opened for writing.
\<close>

record world =
  decode :: "string \<Rightarrow> image option"
  getcolor :: "string \<Rightarrow> (int \<times> int \<times> int \<times> int) option"
  files :: "(string \<times> disk_file) list"
  dirs :: "string list"
  writable :: "string \<Rightarrow> bool"
  opens :: "string \<Rightarrow> bool"

text \<open>\<^verbatim>\<open>ImageOps.exif_transpose\<close>: orientations 5 to 8 swap the two dimensions.\<close>

definition exif_transpose :: "image \<Rightarrow> image" where
  "exif_transpose img =
     (if exif_orientation img \<in> {2, 3, 4} then
        img\<lparr>img_buf := Transposed (img_buf img), exif_orientation := 1\<rparr>
      else if exif_orientation img \<in> {5, 6, 7, 8} then
        img\<lparr>img_w := img_h img, img_h := img_w img,
            img_buf := Transposed (img_buf img), exif_orientation := 1\<rparr>
      else img)"

definition open_image_safe :: "world \<Rightarrow> string \<Rightarrow> error + image" where
  "open_image_safe wd path =
     (case decode wd path of
        None \<Rightarrow> Inl (Unreadable path)
      | Some img \<Rightarrow> Inr (exif_transpose img))"

definition parse_color :: "world \<Rightarrow> string \<Rightarrow> int \<times> int \<times> int \<times> int" where
  "parse_color wd v = (case getcolor wd v of Some c \<Rightarrow> c | None \<Rightarrow> (255, 255, 255, 255))"

subsection \<open>Numbers\<close>

text \<open>
  Python's \<^verbatim>\<open>round\<close> on one argument rounds half to even, on the exact value of its
  argument.
\<close>

definition py_round :: "rat \<Rightarrow> int" where
  "py_round q =
     (let f = \<lfloor>q\<rfloor>; d = q - of_int f
      in if d < 1 / 2 then f else if 1 / 2 < d then f + 1 else if even f then f else f + 1)"

text \<open>\<^verbatim>\<open>int\<close> of a fraction truncates towards zero.\<close>

definition py_int :: "rat \<Rightarrow> int" where
  "py_int q = (if 0 \<le> q then \<lfloor>q\<rfloor> else \<lceil>q\<rceil>)"

text \<open>
  A \<^verbatim>\<open>float\<close> is an IEEE 754 double, kept as the rational it stands for. \<open>double q\<close> is the
  double nearest to \<open>q\<close>, ties to the even significand of 53 bits. The exponent is not
  bounded here (no overflow, no subnormal numbers), which the sizes and scales of this
  program never reach.
\<close>

function bit_length :: "int \<Rightarrow> int" where
  "bit_length n = (if n \<le> 0 then 0 else 1 + bit_length (n div 2))"
  by pat_completeness auto
termination
  by (relation "measure nat") auto

declare bit_length.simps [simp del]

definition pow2 :: "int \<Rightarrow> rat" where
  "pow2 e = (if 0 \<le> e then 2 ^ nat e else 1 / 2 ^ nat (- e))"

text \<open>The binary exponent of a positive fraction: \<open>2 ^ ilog2 q \<le> q < 2 ^ (ilog2 q + 1)\<close>.\<close>

definition ilog2 :: "rat \<Rightarrow> int" where
  "ilog2 q =
     (let (n, d) = quotient_of q;
          k = bit_length n - bit_length d
      in if pow2 k \<le> q then k else k - 1)"

definition double :: "rat \<Rightarrow> rat" where
  "double q =
     (if q = 0 then 0
      else
        (let a = \<bar>q\<bar>;
             e = ilog2 a - 52;
             m = py_round (a / pow2 e)
         in sgn q * of_int m * pow2 e))"

text \<open>
  The operations the program uses: \<^verbatim>\<open>float(i)\<close>, the product and the quotient of two
  doubles, and the true division \<^verbatim>\<open>i / j\<close> of two integers, each rounded once.
\<close>

definition double_of_int :: "int \<Rightarrow> rat" where
  "double_of_int i = double (of_int i)"

definition double_mul :: "rat \<Rightarrow> rat \<Rightarrow> rat" where
  "double_mul x y = double (x * y)"

definition double_div :: "rat \<Rightarrow> rat \<Rightarrow> rat" where
  "double_div x y = double (x / y)"

definition int_truediv :: "int \<Rightarrow> int \<Rightarrow> rat" where
  "int_truediv i j = double (of_int i / of_int j)"

text \<open>\<^verbatim>\<open>max\<close> and \<^verbatim>\<open>min\<close> of a list; Python raises on the empty list, which no caller passes.\<close>

fun max_list :: "int list \<Rightarrow> int" where
  "max_list [] = 0"
| "max_list [x] = x"
| "max_list (x # xs) = max x (max_list xs)"

fun min_list :: "int list \<Rightarrow> int" where
  "min_list [] = 0"
| "min_list [x] = x"
| "min_list (x # xs) = min x (min_list xs)"

subsection \<open>Composition\<close>

definition resize :: "image \<Rightarrow> int \<Rightarrow> int \<Rightarrow> image" where
  "resize img w h = img\<lparr>img_w := w, img_h := h, img_buf := Lanczos (img_buf img) w h\<rparr>"

fun load_all :: "world \<Rightarrow> string list \<Rightarrow> error + image list" where
  "load_all wd [] = Inr []"
| "load_all wd (p # ps) =
     (case open_image_safe wd p of
        Inl e \<Rightarrow> Inl e
      | Inr img \<Rightarrow> (case load_all wd ps of Inl e \<Rightarrow> Inl e | Inr imgs \<Rightarrow> Inr (img # imgs)))"

text \<open>The two alignment loops: an image already at the edge is appended as it is.\<close>

fun align_vertical :: "int \<Rightarrow> image list \<Rightarrow> error + image list" where
  "align_vertical edge [] = Inr []"
| "align_vertical edge (img # imgs) =
     (if img_w img = edge then
        (case align_vertical edge imgs of Inl e \<Rightarrow> Inl e | Inr rs \<Rightarrow> Inr (img # rs))
      else if img_w img = 0 then Inl ZeroDivision
      else
        (let r = int_truediv edge (img_w img);
             img' = resize img edge (max 1 (py_round (double_mul (double_of_int (img_h img)) r)))
         in case align_vertical edge imgs of Inl e \<Rightarrow> Inl e | Inr rs \<Rightarrow> Inr (img' # rs)))"

fun align_horizontal :: "int \<Rightarrow> image list \<Rightarrow> error + image list" where
  "align_horizontal edge [] = Inr []"
| "align_horizontal edge (img # imgs) =
     (if img_h img = edge then
        (case align_horizontal edge imgs of Inl e \<Rightarrow> Inl e | Inr rs \<Rightarrow> Inr (img # rs))
      else if img_h img = 0 then Inl ZeroDivision
      else
        (let r = int_truediv edge (img_h img);
             img' = resize img (max 1 (py_round (double_mul (double_of_int (img_w img)) r))) edge
         in case align_horizontal edge imgs of Inl e \<Rightarrow> Inl e | Inr rs \<Rightarrow> Inr (img' # rs)))"

definition align :: "string \<Rightarrow> bool \<Rightarrow> string \<Rightarrow> image list \<Rightarrow> error + image list" where
  "align orientation scale_to_align_edge target_edge_mode images =
     (if scale_to_align_edge then
        (if orientation = ''vertical'' then
           align_vertical
             (if target_edge_mode = ''max'' then max_list (map img_w images)
              else min_list (map img_w images)) images
         else
           align_horizontal
             (if target_edge_mode = ''max'' then max_list (map img_h images)
              else min_list (map img_h images)) images)
      else Inr images)"

definition convert :: "image \<Rightarrow> string \<Rightarrow> image" where
  "convert img m = img\<lparr>img_buf := Converted (img_buf img) m\<rparr>"

text \<open>The two paste loops, with the running offset.\<close>

fun paste_vertical :: "string \<Rightarrow> int \<Rightarrow> int \<Rightarrow> image list \<Rightarrow> (int \<times> int \<times> image) list" where
  "paste_vertical m spacing y [] = []"
| "paste_vertical m spacing y (img # imgs) =
     (0, y, convert img m) # paste_vertical m spacing (y + (img_h img + spacing)) imgs"

fun paste_horizontal :: "string \<Rightarrow> int \<Rightarrow> int \<Rightarrow> image list \<Rightarrow> (int \<times> int \<times> image) list" where
  "paste_horizontal m spacing x [] = []"
| "paste_horizontal m spacing x (img # imgs) =
     (x, 0, convert img m) # paste_horizontal m spacing (x + (img_w img + spacing)) imgs"

definition build_canvas :: "world \<Rightarrow> string \<Rightarrow> int \<Rightarrow> string \<Rightarrow> image list \<Rightarrow> composed" where
  "build_canvas wd orientation spacing bg_color images =
     (let widths = map img_w images;
          heights = map img_h images;
          (cr, cg, cb, ca) = parse_color wd bg_color;
          m = (if ca < 255 then ''RGBA'' else ''RGB'');
          bg = (if m = ''RGBA'' then [cr, cg, cb, ca] else [cr, cg, cb]);
          gaps = spacing * (if length images > 1 then int (length images) - 1 else 0)
      in if orientation = ''vertical'' then
           \<lparr>canvas_w = max_list widths, canvas_h = sum_list heights + gaps,
            canvas_mode = m, canvas_bg = bg, pastes = paste_vertical m spacing 0 images\<rparr>
         else
           \<lparr>canvas_w = sum_list widths + gaps, canvas_h = max_list heights,
            canvas_mode = m, canvas_bg = bg, pastes = paste_horizontal m spacing 0 images\<rparr>)"

definition stitch_images ::
  "world \<Rightarrow> string list \<Rightarrow> string \<Rightarrow> bool \<Rightarrow> int \<Rightarrow> string \<Rightarrow> string \<Rightarrow> error + composed" where
  "stitch_images wd paths orientation scale_to_align_edge spacing bg_color target_edge_mode =
     (if paths = [] then Inl EmptyInput
      else
        (case load_all wd paths of
           Inl e \<Rightarrow> Inl e
         | Inr images \<Rightarrow>
             (if orientation \<noteq> ''vertical'' \<and> orientation \<noteq> ''horizontal'' then
                Inl InvalidOrientation
              else
                (case align orientation scale_to_align_edge target_edge_mode images of
                   Inl e \<Rightarrow> Inl e
                 | Inr aligned \<Rightarrow> Inr (build_canvas wd orientation spacing bg_color aligned)))))"


section \<open>The application\<close>

subsection \<open>State\<close>

record display =
  disp_w :: int
  disp_h :: int
  disp_src :: composed

datatype label = LabelEmpty | LabelFailed | LabelSize int int int

datatype status = StatusEmpty | StatusSaved string

text \<open>
  The variables of \<^verbatim>\<open>ImageStitcherApp\<close>. An integer entry reads as \<open>None\<close> when
  \<^verbatim>\<open>get()\<close> raises on its text. \<open>preview_scale\<close> holds a double. The list box mirrors
  \<open>paths\<close> and is left out.
\<close>

record app =
  paths :: "string list"
  live_preview_enabled :: bool
  preview_img_full :: "composed option"
  preview_img_tk :: "display option"
  preview_scale :: rat
  preview_job :: bool
  canvas_item :: "display option"
  scrollregion :: "int \<times> int"
  size_label :: label
  winfo_width :: int
  var_orient :: string
  var_scale :: bool
  var_spacing :: "int option"
  var_bg :: string
  var_target_mode :: string
  var_output_mode :: string
  var_out_dir :: string
  var_direct_ext :: string
  var_direct_index :: "int option"
  var_auto_reset :: bool
  status_var :: status
  progress :: int

subsection \<open>Working list\<close>

definition schedule_preview_update :: "app \<Rightarrow> app" where
  "schedule_preview_update st =
     (if \<not> live_preview_enabled st then st else st\<lparr>preview_job := True\<rparr>)"


definition clear_all :: "app \<Rightarrow> app" where
  "clear_all st = schedule_preview_update (st\<lparr>paths := []\<rparr>)"

subsection \<open>Live preview\<close>

definition fit_scale :: "int \<Rightarrow> int \<Rightarrow> rat" where
  "fit_scale viewport_w composed_w =
     (let cw = max 1 viewport_w;
          iw = max 1 composed_w
      in min 3
           (max (double (5 / 100))
              (double_div (double_mul (double_of_int cw) (double (98 / 100)))
                 (double_of_int iw))))"

definition fit_preview_width :: "app \<Rightarrow> app" where
  "fit_preview_width st =
     (case preview_img_full st of
        None \<Rightarrow> st
      | Some full \<Rightarrow>
          if \<not> live_preview_enabled st then st
          else st\<lparr>preview_scale := fit_scale (winfo_width st) (canvas_w full)\<rparr>)"

definition scaled_size :: "composed \<Rightarrow> rat \<Rightarrow> int \<times> int" where
  "scaled_size full sc =
     (let scale = max (double (5 / 100)) (min 3 sc);
          sw = max 1 (py_int (double_mul (double_of_int (canvas_w full)) scale));
          sh = max 1 (py_int (double_mul (double_of_int (canvas_h full)) scale))
      in (sw, sh))"

definition render_preview_scaled :: "app \<Rightarrow> app" where
  "render_preview_scaled st =
     (case preview_img_full st of
        None \<Rightarrow> st
      | Some full \<Rightarrow>
          if \<not> live_preview_enabled st then st
          else
            (let scale = max (double (5 / 100)) (min 3 (preview_scale st));
                 (sw, sh) = scaled_size full (preview_scale st);
                 disp = \<lparr>disp_w = sw, disp_h = sh, disp_src = full\<rparr>
             in st\<lparr>preview_img_tk := Some disp, canvas_item := Some disp,
                   scrollregion := (sw, sh),
                   size_label :=
                     LabelSize (canvas_w full) (canvas_h full) (py_int (double_mul scale 100))\<rparr>))"

definition render_preview_full :: "world \<Rightarrow> app \<Rightarrow> app" where
  "render_preview_full wd st0 =
     (let st = st0\<lparr>preview_job := False\<rparr>
      in if paths st = [] \<or> \<not> live_preview_enabled st then
           st\<lparr>preview_img_full := None, canvas_item := None, size_label := LabelEmpty\<rparr>
         else
           (case var_spacing st of
              None \<Rightarrow> st
            | Some spacing \<Rightarrow>
                if spacing < 0 then st
                else
                  (case stitch_images wd (paths st) (var_orient st) (var_scale st) spacing
                          (var_bg st) (var_target_mode st) of
                     Inr img \<Rightarrow>
                       render_preview_scaled (fit_preview_width (st\<lparr>preview_img_full := Some img\<rparr>))
                   | Inl e \<Rightarrow>
                       st\<lparr>preview_img_full := None, canvas_item := None,
                          size_label := LabelFailed\<rparr>)))"

subsection \<open>Output\<close>

definition digit :: "nat \<Rightarrow> char" where
  "digit n = char_of (48 + n)"

fun dec :: "nat \<Rightarrow> string" where
  "dec n = (if n < 10 then [digit n] else dec (n div 10) @ [digit (n mod 10)])"

declare dec.simps [simp del]

definition str_int :: "int \<Rightarrow> string" where
  "str_int i = (if i < 0 then CHR ''-'' # dec (nat (- i)) else dec (nat i))"

text \<open>\<^verbatim>\<open>os.path.join\<close> of a directory and a name that does not start with a slash.\<close>

definition join :: "string \<Rightarrow> string \<Rightarrow> string" where
  "join d b = (if d = [] \<or> last d = CHR ''/'' then d @ b else d @ CHR ''/'' # b)"

definition candidate :: "string \<Rightarrow> int \<Rightarrow> string \<Rightarrow> string" where
  "candidate out_dir idx ext = join out_dir (str_int idx @ CHR ''.'' # ext)"

text \<open>\<^verbatim>\<open>os.path.exists\<close>: a file or a directory is there.\<close>

definition existing :: "world \<Rightarrow> string list" where
  "existing wd = map fst (files wd) @ dirs wd"

text \<open>
  The collision probe \<^verbatim>\<open>while os.path.exists(save_path): idx += 1\<close>. It ends because a taken
  name is no longer than the names that exist, and the decimal numeral of \<open>idx\<close> grows
  without bound.
\<close>

function find_free :: "string list \<Rightarrow> string \<Rightarrow> string \<Rightarrow> int \<Rightarrow> int \<times> string" where
  "find_free ex out_dir ext idx =
     (if candidate out_dir idx ext \<in> set ex then find_free ex out_dir ext (idx + 1)
      else (idx, candidate out_dir idx ext))"
  by pat_completeness auto
termination
proof (relation "measure (\<lambda>(ex, d, e, idx). nat (10 ^ sum_list (map length ex) - idx))")
  show "wf (measure (\<lambda>(ex, d, e, idx). nat (10 ^ sum_list (map length ex) - idx)))" by simp
next
  fix ex :: "string list" and out_dir ext :: string and idx :: int
  assume taken: "candidate out_dir idx ext \<in> set ex"
  have digits: "n < 10 ^ length (dec n)" for n
  proof (induction n rule: dec.induct)
    case (1 n)
    show ?case
    proof (cases "n < 10")
      case True
      then show ?thesis by (simp add: dec.simps)
    next
      case False
      with 1 have ih: "n div 10 < 10 ^ length (dec (n div 10))" by simp
      have "n < 10 * (n div 10 + 1)" by simp
      also have "\<dots> \<le> 10 * 10 ^ length (dec (n div 10))" using ih by simp
      finally show ?thesis using False by (subst dec.simps) simp
    qed
  qed
  have numeral: "idx < 10 ^ length (str_int idx)"
  proof (cases "idx < 0")
    case True
    have "(0::int) < 10 ^ length (str_int idx)" by simp
    with True show ?thesis by linarith
  next
    case False
    have "int (nat idx) < int (10 ^ length (dec (nat idx)))"
      using digits [of "nat idx"] by (simp only: of_nat_less_iff)
    with False show ?thesis by (simp add: str_int_def)
  qed
  have member: "p \<in> set xs \<Longrightarrow> length p \<le> sum_list (map length xs)" for p :: string and xs
    by (induction xs) auto
  have "length (str_int idx) \<le> length (candidate out_dir idx ext)"
    by (simp add: candidate_def join_def)
  with member [OF taken] have "length (str_int idx) \<le> sum_list (map length ex)" by linarith
  then have "(10::int) ^ length (str_int idx) \<le> 10 ^ sum_list (map length ex)"
    by (simp add: power_increasing)
  with numeral have "idx < 10 ^ sum_list (map length ex)" by linarith
  then show "((ex, out_dir, ext, idx + 1), (ex, out_dir, ext, idx))
      \<in> measure (\<lambda>(ex, d, e, idx). nat (10 ^ sum_list (map length ex) - idx))"
    by simp
qed

declare find_free.simps [simp del]

text \<open>\<^verbatim>\<open>str.strip\<close>: the white space among the code points below 256.\<close>

definition is_space :: "char \<Rightarrow> bool" where
  "is_space c = ((of_char c :: nat) \<in> {9, 10, 11, 12, 13, 28, 29, 30, 31, 32, 133, 160})"

definition strip :: "string \<Rightarrow> string" where
  "strip s = rev (dropWhile is_space (rev (dropWhile is_space s)))"

text \<open>
  \<^verbatim>\<open>_save_image\<close>: JPEG is written opaque at quality 95. \<open>Inr\<close> is the world after the
  write, \<open>Inl\<close> the world a write that raised leaves behind. The imaging library opens
  the destination for writing before it encodes: when the path cannot be opened nothing
  changes; when it opens and the encoding breaks off, a file that was there is cut short,
  and a file the library created itself is removed again.
\<close>

definition save_image :: "world \<Rightarrow> composed \<Rightarrow> string \<Rightarrow> world + world" where
  "save_image wd img save_path =
     (let ext = lower (splitext_ext save_path);
          jpeg = (ext = ''.jpg'' \<or> ext = ''.jpeg'');
          c = \<lparr>saved_img = img,
               saved_mode = (if jpeg then ''RGB'' else canvas_mode img),
               saved_quality = (if jpeg then Some 95 else None)\<rparr>
      in if writable wd save_path then Inr (wd\<lparr>files := (save_path, Whole c) # files wd\<rparr>)
         else if opens wd save_path \<and> save_path \<in> set (map fst (files wd)) then
           Inl (wd\<lparr>files := (save_path, Cut) # files wd\<rparr>)
         else Inl wd)"

definition set_progress :: "app \<Rightarrow> int \<Rightarrow> app" where
  "set_progress st val = st\<lparr>progress := max 0 (min 100 val)\<rparr>"

datatype outcome =
    NoImages
  | BadSpacing
  | StitchFailed error
  | Cancelled
  | NoDir
  | DirMissing
  | BadIndex
  | SaveFailed string
  | Saved string

text \<open>The last two lines of \<^verbatim>\<open>run_stitch\<close>.\<close>

definition auto_reset :: "string option \<Rightarrow> app \<Rightarrow> app" where
  "auto_reset success_path st =
     (case success_path of
        None \<Rightarrow> st
      | Some p \<Rightarrow>
          if p \<noteq> [] \<and> var_auto_reset st then (clear_all st)\<lparr>var_direct_index := Some 1\<rparr>
          else st)"

definition output_single :: "world \<Rightarrow> string \<Rightarrow> composed \<Rightarrow> app \<Rightarrow> outcome \<times> app \<times> world" where
  "output_single wd save_path img st =
     (if save_path = [] then (Cancelled, set_progress st 0, wd)
      else
        (case save_image wd img save_path of
           Inr wd' \<Rightarrow>
             (Saved save_path,
              auto_reset (Some save_path) (set_progress (set_progress st 100) 0), wd')
         | Inl wd' \<Rightarrow> (SaveFailed save_path, auto_reset None (set_progress st 0), wd')))"

text \<open>The extension of the sequential mode: anything but the three offered ones is \<open>png\<close>.\<close>

definition direct_ext :: "app \<Rightarrow> string" where
  "direct_ext st =
     (let ext = lower (var_direct_ext st)
      in if ext \<notin> {''png'', ''jpg'', ''webp''} then ''png'' else ext)"

definition output_direct :: "world \<Rightarrow> composed \<Rightarrow> app \<Rightarrow> outcome \<times> app \<times> world" where
  "output_direct wd img st =
     (let out_dir = strip (var_out_dir st)
      in if out_dir = [] then (NoDir, set_progress st 0, wd)
         else if out_dir \<notin> set (dirs wd) then (DirMissing, set_progress st 0, wd)
         else
           (case var_direct_index st of
              None \<Rightarrow> (BadIndex, set_progress st 0, wd)
            | Some idx0 \<Rightarrow>
                if idx0 < 1 then (BadIndex, set_progress st 0, wd)
                else
                  (let ext = direct_ext st;
                       (idx, save_path) = find_free (existing wd) out_dir ext idx0
                   in case save_image wd img save_path of
                        Inr wd' \<Rightarrow>
                          (Saved save_path,
                           auto_reset (Some save_path)
                             (set_progress
                                ((set_progress (st\<lparr>var_direct_index := Some (idx + 1)\<rparr>) 100)
                                   \<lparr>status_var := StatusSaved save_path\<rparr>) 0),
                           wd')
                      | Inl wd' \<Rightarrow>
                          (SaveFailed save_path,
                           auto_reset None (set_progress (st\<lparr>status_var := StatusEmpty\<rparr>) 0),
                           wd'))))"

text \<open>
  \<^verbatim>\<open>run_stitch\<close>; \<open>dialog_path\<close> is what the save dialog of the single-shot mode returns
  (empty when it is cancelled).
\<close>

definition run_stitch :: "world \<Rightarrow> string \<Rightarrow> app \<Rightarrow> outcome \<times> app \<times> world" where
  "run_stitch wd dialog_path st =
     (if paths st = [] then (NoImages, st, wd)
      else
        (case var_spacing st of
           None \<Rightarrow> (BadSpacing, st, wd)
         | Some spacing \<Rightarrow>
             if spacing < 0 then (BadSpacing, st, wd)
             else
               (case stitch_images wd (paths st) (var_orient st) (var_scale st) spacing
                       (var_bg st) (var_target_mode st) of
                  Inl e \<Rightarrow> (StitchFailed e, set_progress (set_progress st 5) 0, wd)
                | Inr img \<Rightarrow>
                    if var_output_mode st = ''single'' then
                      output_single wd dialog_path img (set_progress (set_progress st 5) 60)
                    else output_direct wd img (set_progress (set_progress st 5) 60))))"

section \<open>The specification's vocabulary\<close>

text \<open>\<open>clamp\<close> as the specification uses it: the value, kept between the two bounds.\<close>

definition clamp :: "rat \<Rightarrow> rat \<Rightarrow> rat \<Rightarrow> rat" where
  "clamp x lo hi = max lo (min hi x)"

text \<open>The target edge: the largest of the inputs for mode \<open>max\<close>, the smallest otherwise.\<close>

definition target_edge :: "string \<Rightarrow> int list \<Rightarrow> int" where
  "target_edge tm xs = (if tm = ''max'' then Max (set xs) else Min (set xs))"

text \<open>
  The other side of an image scaled from side \<open>w\<close> to side \<open>W\<close>:
  \<open>max(1, round(h \<times> (W / w)))\<close>, the quotient and then the product each rounded to a
  double, the result rounded half to even.
\<close>

definition scaled_side :: "int \<Rightarrow> int \<Rightarrow> int \<Rightarrow> int" where
  "scaled_side h W w = max 1 (py_round (double (double (of_int h) * double (of_int W / of_int w))))"

section \<open>A small world to run the program in\<close>

definition img_a :: image where
  "img_a = \<lparr>img_w = 4, img_h = 2, img_buf = Decoded ''a.png'', exif_orientation = 1\<rparr>"

definition img_b :: image where
  "img_b = \<lparr>img_w = 2, img_h = 3, img_buf = Decoded ''b.jpg'', exif_orientation = 1\<rparr>"

definition img_c :: image where
  "img_c = \<lparr>img_w = 5, img_h = 5, img_buf = Decoded ''c.txt'', exif_orientation = 1\<rparr>"

definition old_file :: disk_file where
  "old_file =
     Whole \<lparr>saved_img = \<lparr>canvas_w = 1, canvas_h = 1, canvas_mode = ''RGB'', canvas_bg = [0, 0, 0],
                   pastes = []\<rparr>,
            saved_mode = ''RGB'', saved_quality = None\<rparr>"

definition demo_world :: world where
  "demo_world =
     \<lparr>decode = (\<lambda>p. if p = ''a.png'' then Some img_a
                    else if p = ''b.jpg'' then Some img_b
                    else if p = ''c.txt'' then Some img_c else None),
      getcolor = (\<lambda>s. if s = ''#FFFFFF'' then Some (255, 255, 255, 255)
                      else if s = ''#00000080'' then Some (0, 0, 0, 128) else None),
      files = [(''/out/1.png'', old_file), (''/out/2.png'', old_file), (''/out/3.png'', old_file),
               (''/out/4.png'', old_file), (''/out/5.png'', old_file)],
      dirs = [''/out'', ''/ro''],
      writable = (\<lambda>p. take 4 p \<noteq> ''/ro/''),
      opens = (\<lambda>p. take 4 p \<noteq> ''/ro/'')\<rparr>"

text \<open>Two images whose aligned height falls on a half: 25 \<times> 23 / 10 = 57.5.\<close>

definition img_p :: image where
  "img_p = \<lparr>img_w = 10, img_h = 25, img_buf = Decoded ''p.png'', exif_orientation = 1\<rparr>"

definition img_q :: image where
  "img_q = \<lparr>img_w = 23, img_h = 1, img_buf = Decoded ''q.png'', exif_orientation = 1\<rparr>"

definition tie_world :: world where
  "tie_world =
     demo_world\<lparr>decode := (\<lambda>p. if p = ''p.png'' then Some img_p
                                 else if p = ''q.png'' then Some img_q else None)\<rparr>"

text \<open>The same world with an encoder that breaks off on every write.\<close>

definition broken_world :: world where
  "broken_world = demo_world\<lparr>writable := (\<lambda>p. False), opens := (\<lambda>p. True)\<rparr>"

text \<open>The state \<^verbatim>\<open>__init__\<close> leaves, with two images in the list.\<close>

definition demo_app :: app where
  "demo_app =
     \<lparr>paths = [''a.png'', ''b.jpg''], live_preview_enabled = True, preview_img_full = None,
      preview_img_tk = None, preview_scale = 1 / 2, preview_job = False, canvas_item = None,
      scrollregion = (0, 0), size_label = LabelEmpty, winfo_width = 1,
      var_orient = ''vertical'', var_scale = True, var_spacing = Some 0, var_bg = ''#FFFFFF'',
      var_target_mode = ''max'', var_output_mode = ''single'', var_out_dir = [],
      var_direct_ext = ''png'', var_direct_index = Some 1, var_auto_reset = False,
      status_var = StatusEmpty, progress = 0\<rparr>"

definition demo_direct :: app where
  "demo_direct = demo_app\<lparr>var_output_mode := ''direct'', var_out_dir := ''/out''\<rparr>"


definition demo_composed :: composed where
  "demo_composed =
     \<lparr>canvas_w = 10, canvas_h = 10, canvas_mode = ''RGB'', canvas_bg = [255, 255, 255],
      pastes = []\<rparr>"

definition demo_display :: display where
  "demo_display = \<lparr>disp_w = 5, disp_h = 5, disp_src = demo_composed\<rparr>"

text \<open>A preview that shows \<open>demo_composed\<close>.\<close>

definition demo_showing :: app where
  "demo_showing =
     demo_app\<lparr>preview_img_full := Some demo_composed, preview_img_tk := Some demo_display,
              canvas_item := Some demo_display, scrollregion := (5, 5),
              size_label := LabelSize 10 10 50\<rparr>"

section \<open>Basic facts\<close>

lemma auto_reset_None: "auto_reset None st = st"
  by (simp add: auto_reset_def)

lemma paths_set_progress: "paths (set_progress st v) = paths st"
  by (simp add: set_progress_def)

lemma index_set_progress: "var_direct_index (set_progress st v) = var_direct_index st"
  by (simp add: set_progress_def)

lemma reset_set_progress: "var_auto_reset (set_progress st v) = var_auto_reset st"
  by (simp add: set_progress_def)

lemma auto_reset_Some_paths:
  "p \<noteq> [] \<Longrightarrow> var_auto_reset st \<Longrightarrow> paths (auto_reset (Some p) st) = []"
  by (simp add: auto_reset_def clear_all_def schedule_preview_update_def)

lemma auto_reset_Some_index:
  "p \<noteq> [] \<Longrightarrow> var_auto_reset st \<Longrightarrow> var_direct_index (auto_reset (Some p) st) = Some 1"
  by (simp add: auto_reset_def clear_all_def schedule_preview_update_def)

lemma candidate_nonempty: "candidate d i e \<noteq> []"
  by (simp add: candidate_def join_def)

lemma find_free_snd: "snd (find_free ex d e i) = candidate d (fst (find_free ex d e i)) e"
  by (induction ex d e i rule: find_free.induct) (subst (1 2) find_free.simps, simp)

lemma find_free_nonempty: "find_free ex d e i = (j, sp) \<Longrightarrow> sp \<noteq> []"
  using find_free_snd [of ex d e i] candidate_nonempty by simp

lemma run_stitch_triple:
  "run_stitch wd dp st =
     (fst (run_stitch wd dp st), fst (snd (run_stitch wd dp st)), snd (snd (run_stitch wd dp st)))"
  by simp

lemma run_stitch_cases:
  assumes "run_stitch wd dp st = (oc, st', wd')"
  shows "(st' = st \<or> st' = set_progress (set_progress st 5) 0) \<and> wd' = wd \<and>
           oc \<in> {NoImages, BadSpacing} \<union> range StitchFailed
         \<or> (\<exists>img. output_single wd dp img (set_progress (set_progress st 5) 60) = (oc, st', wd')
               \<or> output_direct wd img (set_progress (set_progress st 5) 60) = (oc, st', wd'))"
  using assms by (auto simp: run_stitch_def split: if_splits option.splits sum.splits)

section \<open>The empty working list\<close>

text \<open>
  C9. Composing the empty list fails with \<open>EmptyInput\<close>. With an empty working list the
  output run stops at once, changing neither the state nor any file, and the preview
  recompute drops the composed image and shows nothing.
\<close>

theorem empty_working_list:
  "stitch_images wd [] orientation al spacing bg tm = Inl EmptyInput \<and>
   (paths st = [] \<longrightarrow> run_stitch wd dp st = (NoImages, st, wd)) \<and>
   (paths st = [] \<longrightarrow>
      preview_img_full (render_preview_full wd st) = None \<and>
      canvas_item (render_preview_full wd st) = None)"
  by (simp add: stitch_images_def run_stitch_def render_preview_full_def Let_def)

theorem empty_working_list_witness:
  "stitch_images demo_world [] ''vertical'' True 0 ''#FFFFFF'' ''max'' = Inl EmptyInput \<and>
   run_stitch demo_world ''/x/out.png'' (demo_app\<lparr>paths := []\<rparr>) =
     (NoImages, demo_app\<lparr>paths := []\<rparr>, demo_world) \<and>
   preview_img_full (render_preview_full demo_world (demo_app\<lparr>paths := []\<rparr>)) = None \<and>
   canvas_item (render_preview_full demo_world (demo_app\<lparr>paths := []\<rparr>)) = None"
  using empty_working_list [of demo_world "''vertical''" True 0 "''#FFFFFF''" "''max''"
      "demo_app\<lparr>paths := []\<rparr>" "''/x/out.png''"]
  by simp

section \<open>The automatic reset\<close>

lemma output_single_saved:
  "output_single wd dp img st = (Saved p, st', wd') \<Longrightarrow> var_auto_reset st \<Longrightarrow>
     paths st' = [] \<and> var_direct_index st' = Some 1"
  by (auto simp: output_single_def auto_reset_Some_paths auto_reset_Some_index
        reset_set_progress
      split: if_splits sum.splits)

lemma output_direct_saved:
  "output_direct wd img st = (Saved p, st', wd') \<Longrightarrow> var_auto_reset st \<Longrightarrow>
     paths st' = [] \<and> var_direct_index st' = Some 1"
  by (auto simp: output_direct_def Let_def set_progress_def auto_reset_Some_paths
        auto_reset_Some_index
      split: if_splits option.splits sum.splits prod.splits dest: find_free_nonempty)

text \<open>
  C10. After a successful write with the automatic reset switched on, in the single-shot
  mode as in the sequential one, the working list is empty and the next index is 1.
\<close>

theorem auto_reset_after_write:
  assumes "run_stitch wd dp st = (Saved p, st', wd')" and "var_auto_reset st"
  shows "paths st' = [] \<and> var_direct_index st' = Some 1"
proof -
  from run_stitch_cases [OF assms(1)] obtain img where
    "output_single wd dp img (set_progress (set_progress st 5) 60) = (Saved p, st', wd') \<or>
     output_direct wd img (set_progress (set_progress st 5) 60) = (Saved p, st', wd')"
    by auto
  moreover have "var_auto_reset (set_progress (set_progress st 5) 60)"
    using assms(2) by (simp add: reset_set_progress)
  ultimately show ?thesis
    using output_single_saved output_direct_saved by blast
qed

theorem auto_reset_after_write_witness:
  "fst (run_stitch demo_world ''/x/out.png''
          (demo_app\<lparr>var_direct_index := Some 4, var_auto_reset := True\<rparr>)) = Saved ''/x/out.png'' \<and>
   paths (fst (snd (run_stitch demo_world ''/x/out.png''
          (demo_app\<lparr>var_direct_index := Some 4, var_auto_reset := True\<rparr>)))) = [] \<and>
   var_direct_index (fst (snd (run_stitch demo_world ''/x/out.png''
          (demo_app\<lparr>var_direct_index := Some 4, var_auto_reset := True\<rparr>)))) = Some 1"
proof -
  let ?st = "demo_app\<lparr>var_direct_index := Some 4, var_auto_reset := True\<rparr>"
  let ?r = "run_stitch demo_world ''/x/out.png'' ?st"
  have oc: "fst ?r = Saved ''/x/out.png''"
    by code_simp
  have "?r = (Saved ''/x/out.png'', fst (snd ?r), snd (snd ?r))"
    using run_stitch_triple [of demo_world "''/x/out.png''" ?st] oc by simp
  from auto_reset_after_write [OF this] oc show ?thesis
    by simp
qed

section \<open>Sequential output\<close>

lemma find_free_spec:
  "find_free ex d e i = (j, sp) \<Longrightarrow>
     i \<le> j \<and> sp = candidate d j e \<and> sp \<notin> set ex \<and>
     (\<forall>k. i \<le> k \<and> k < j \<longrightarrow> candidate d k e \<in> set ex)"
proof (induction ex d e i rule: find_free.induct)
  case (1 ex d e i)
  show ?case
  proof (cases "candidate d i e \<in> set ex")
    case True
    with "1.prems" have "find_free ex d e (i + 1) = (j, sp)"
      by (subst (asm) find_free.simps) simp
    from "1.IH" [OF True this] have ih: "i + 1 \<le> j" "sp = candidate d j e" "sp \<notin> set ex"
      "\<forall>k. i + 1 \<le> k \<and> k < j \<longrightarrow> candidate d k e \<in> set ex" by auto
    have "candidate d k e \<in> set ex" if "i \<le> k" "k < j" for k
    proof (cases "k = i")
      case True with \<open>candidate d i e \<in> set ex\<close> show ?thesis by simp
    next
      case False with that ih(4) show ?thesis by simp
    qed
    with ih show ?thesis by auto
  next
    case False
    with "1.prems" have "j = i" "sp = candidate d i e"
      by (subst (asm) find_free.simps, simp)+
    with False show ?thesis by auto
  qed
qed




section \<open>A failed write\<close>

lemma save_image_Inl:
  "save_image wd img p = Inl wd' \<Longrightarrow>
     wd' = wd \<or> (p \<in> set (map fst (files wd)) \<and> wd' = wd\<lparr>files := (p, Cut) # files wd\<rparr>)"
  by (auto simp: save_image_def Let_def split: if_splits)

lemma output_single_failed:
  assumes "output_single wd dp img st = (oc, st', wd')" and "\<forall>p. oc \<noteq> Saved p"
  shows "paths st' = paths st \<and> var_direct_index st' = var_direct_index st \<and>
         (\<forall>q. q \<noteq> dp \<longrightarrow> map_of (files wd') q = map_of (files wd) q)"
  using assms
  by (auto simp: output_single_def auto_reset_None set_progress_def
      split: if_splits sum.splits dest!: save_image_Inl)

lemma output_direct_failed:
  assumes "output_direct wd img st = (oc, st', wd')" and "\<forall>p. oc \<noteq> Saved p"
  shows "paths st' = paths st \<and> var_direct_index st' = var_direct_index st \<and>
         (\<forall>q \<in> set (map fst (files wd)). map_of (files wd') q = map_of (files wd) q)"
proof -
  have free: "sp \<notin> set (map fst (files wd))" if "find_free (existing wd) d e i = (j, sp)" for d e i j sp
    using find_free_spec [OF that] by (auto simp: existing_def)
  show ?thesis
    using assms
    by (auto simp: output_direct_def auto_reset_None set_progress_def Let_def
        split: if_splits option.splits sum.splits prod.splits dest!: save_image_Inl free)
qed

text \<open>
  A single-shot write onto \<open>/out/1.png\<close>, which is there, with an encoder that breaks off:
  the run reports the failure and the file is left cut short.
\<close>

theorem failed_write_counterexample:
  "fst (run_stitch broken_world ''/out/1.png'' demo_app) = SaveFailed ''/out/1.png'' \<and>
   map_of (files broken_world) ''/out/1.png'' = Some old_file \<and>
   map_of (files (snd (snd (run_stitch broken_world ''/out/1.png'' demo_app)))) ''/out/1.png''
     = Some Cut"
  by code_simp

text \<open>
  C4, amended. Whenever the run does not end in a successful write (the write failed, or
  the run stopped before it), the working list and the next index are what they were: the
  automatic reset has not run. In the sequential mode every file that was there keeps its
  content; in the single-shot mode every file but the chosen destination does.
\<close>

theorem failed_write_keeps_state:
  assumes "run_stitch wd dp st = (oc, st', wd')" and "\<forall>p. oc \<noteq> Saved p"
  shows "paths st' = paths st \<and> var_direct_index st' = var_direct_index st \<and>
         (var_output_mode st \<noteq> ''single'' \<longrightarrow>
            (\<forall>q \<in> set (map fst (files wd)). map_of (files wd') q = map_of (files wd) q)) \<and>
         (var_output_mode st = ''single'' \<longrightarrow>
            (\<forall>q. q \<noteq> dp \<longrightarrow> map_of (files wd') q = map_of (files wd) q))"
proof -
  let ?st = "set_progress (set_progress st 5) 60"
  from assms(1) consider
      "(st' = st \<or> st' = set_progress (set_progress st 5) 0) \<and> wd' = wd"
    | img where "var_output_mode st = ''single''" "output_single wd dp img ?st = (oc, st', wd')"
    | img where "var_output_mode st \<noteq> ''single''" "output_direct wd img ?st = (oc, st', wd')"
    by (auto simp: run_stitch_def split: if_splits option.splits sum.splits)
  then show ?thesis
  proof cases
    case 1
    then show ?thesis by (auto simp: paths_set_progress index_set_progress)
  next
    case 2
    from output_single_failed [OF 2(2) assms(2)] 2(1) show ?thesis
      by (simp add: paths_set_progress index_set_progress)
  next
    case 3
    from output_direct_failed [OF 3(2) assms(2)] 3(1) show ?thesis
      by (simp add: paths_set_progress index_set_progress)
  qed
qed

theorem failed_write_keeps_state_witness:
  "fst (run_stitch broken_world [] (demo_direct\<lparr>var_auto_reset := True\<rparr>))
     = SaveFailed ''/out/6.png'' \<and>
   paths (fst (snd (run_stitch broken_world [] (demo_direct\<lparr>var_auto_reset := True\<rparr>))))
     = [''a.png'', ''b.jpg''] \<and>
   var_direct_index (fst (snd (run_stitch broken_world []
       (demo_direct\<lparr>var_auto_reset := True\<rparr>)))) = Some 1 \<and>
   map_of (files (snd (snd (run_stitch broken_world [] (demo_direct\<lparr>var_auto_reset := True\<rparr>)))))
       ''/out/5.png'' = Some old_file"
proof -
  let ?st = "demo_direct\<lparr>var_auto_reset := True\<rparr>"
  have oc: "fst (run_stitch broken_world [] ?st) = SaveFailed ''/out/6.png''"
    by code_simp
  then have no: "\<forall>p. fst (run_stitch broken_world [] ?st) \<noteq> Saved p"
    by simp
  have p: "paths ?st = [''a.png'', ''b.jpg'']" and i: "var_direct_index ?st = Some 1"
    and m: "var_output_mode ?st \<noteq> ''single''"
    by (simp_all add: demo_direct_def demo_app_def)
  have f: "''/out/5.png'' \<in> set (map fst (files broken_world))"
    and g: "map_of (files broken_world) ''/out/5.png'' = Some old_file"
    by code_simp+
  note t = failed_write_keeps_state [OF run_stitch_triple no]
  from t m have a: "\<forall>q \<in> set (map fst (files broken_world)).
      map_of (files (snd (snd (run_stitch broken_world [] ?st)))) q = map_of (files broken_world) q"
    by blast
  from bspec [OF a f] g
  have "map_of (files (snd (snd (run_stitch broken_world [] ?st)))) ''/out/5.png'' = Some old_file"
    by simp
  with t oc p i show ?thesis
    by simp
qed

section \<open>Fit to width\<close>

lemma min_max_swap: "a \<le> b \<Longrightarrow> min b (max a x) = max a (min b (x::rat))"
  by (auto simp: max_def min_def)

text \<open>
  C7. With a composed image cached and the live preview on, for a positive viewport width
  and a positive composed width, fitting sets the scale to viewport \<times> 0.98 / composed, kept
  between 0.05 and 3, in the double arithmetic the scale lives in; for 1000 and 2000 that
  is the double 0.49.
\<close>

theorem fit_to_width:
  assumes "preview_img_full st = Some full" and "live_preview_enabled st"
    and "0 < winfo_width st" and "0 < canvas_w full"
  shows "fit_preview_width st =
           st\<lparr>preview_scale :=
                clamp (double (double (double (of_int (winfo_width st)) * double (98 / 100)) /
                         double (of_int (canvas_w full))))
                  (double (5 / 100)) 3\<rparr> \<and>
         (winfo_width st = 1000 \<and> canvas_w full = 2000 \<longrightarrow>
            preview_scale (fit_preview_width st) = double (49 / 100))"
proof -
  from assms(3,4) have m: "max 1 (winfo_width st) = winfo_width st" "max 1 (canvas_w full) = canvas_w full"
    by simp_all
  have le: "double (5 / 100) \<le> 3"
    by code_simp
  have fs: "fit_scale (winfo_width st) (canvas_w full) =
      clamp (double (double (double (of_int (winfo_width st)) * double (98 / 100)) /
                         double (of_int (canvas_w full))))
                  (double (5 / 100)) 3"
    unfolding fit_scale_def Let_def m clamp_def double_mul_def double_div_def double_of_int_def
    by (rule min_max_swap [OF le])
  have k: "fit_scale 1000 2000 = double (49 / 100)"
    by code_simp
  have f: "fit_preview_width st = st\<lparr>preview_scale := fit_scale (winfo_width st) (canvas_w full)\<rparr>"
    using assms(1,2) by (simp add: fit_preview_width_def)
  show ?thesis
    unfolding f using fs k by simp
qed

theorem fit_to_width_witness:
  "preview_scale (fit_preview_width (demo_showing\<lparr>winfo_width := 1000,
      preview_img_full := Some (demo_composed\<lparr>canvas_w := 2000\<rparr>)\<rparr>)) =
     2206763817411543 / 4503599627370496 \<and>
   double (49 / 100) = 2206763817411543 / 4503599627370496"
proof -
  let ?st = "demo_showing\<lparr>winfo_width := 1000,
      preview_img_full := Some (demo_composed\<lparr>canvas_w := 2000\<rparr>)\<rparr>"
  have h: "preview_img_full ?st = Some (demo_composed\<lparr>canvas_w := 2000\<rparr>)"
    "live_preview_enabled ?st" "0 < winfo_width ?st" "0 < canvas_w (demo_composed\<lparr>canvas_w := 2000\<rparr>)"
    by (simp_all add: demo_showing_def demo_app_def)
  have v: "winfo_width ?st = 1000 \<and> canvas_w (demo_composed\<lparr>canvas_w := 2000\<rparr>) = 2000"
    by simp
  have d: "double (49 / 100) = 2206763817411543 / 4503599627370496"
    by code_simp
  from fit_to_width [OF h, THEN conjunct2] v d show ?thesis
    by simp
qed

section \<open>Composition geometry\<close>

lemma load_all_length: "load_all wd ps = Inr imgs \<Longrightarrow> length imgs = length ps"
  by (induction ps arbitrary: imgs) (auto split: sum.splits)

lemma max_list_Max: "xs \<noteq> [] \<Longrightarrow> max_list xs = Max (set xs)"
  by (induction xs rule: max_list.induct) simp_all

lemma min_list_Min: "xs \<noteq> [] \<Longrightarrow> min_list xs = Min (set xs)"
  by (induction xs rule: min_list.induct) simp_all

lemma length_paste_vertical: "length (paste_vertical m sp y imgs) = length imgs"
  by (induction imgs arbitrary: y) simp_all

lemma length_paste_horizontal: "length (paste_horizontal m sp x imgs) = length imgs"
  by (induction imgs arbitrary: x) simp_all

lemma paste_vertical_nth:
  "k < length imgs \<Longrightarrow>
     paste_vertical m sp y imgs ! k =
       (0, y + (\<Sum>j<k. img_h (imgs ! j) + sp), convert (imgs ! k) m)"
proof (induction imgs arbitrary: y k)
  case Nil
  then show ?case by simp
next
  case (Cons img imgs)
  show ?case
  proof (cases k)
    case 0
    then show ?thesis by simp
  next
    case (Suc n)
    with Cons.prems have "n < length imgs" by simp
    from Cons.IH [OF this] Suc show ?thesis
      by (simp add: sum.lessThan_Suc_shift add.assoc del: sum.lessThan_Suc)
  qed
qed

lemma paste_horizontal_nth:
  "k < length imgs \<Longrightarrow>
     paste_horizontal m sp x imgs ! k =
       (x + (\<Sum>j<k. img_w (imgs ! j) + sp), 0, convert (imgs ! k) m)"
proof (induction imgs arbitrary: x k)
  case Nil
  then show ?case by simp
next
  case (Cons img imgs)
  show ?case
  proof (cases k)
    case 0
    then show ?thesis by simp
  next
    case (Suc n)
    with Cons.prems have "n < length imgs" by simp
    from Cons.IH [OF this] Suc show ?thesis
      by (simp add: sum.lessThan_Suc_shift add.assoc del: sum.lessThan_Suc)
  qed
qed

lemma build_canvas_vertical:
  assumes "imgs \<noteq> []"
  shows "canvas_w (build_canvas wd ''vertical'' sp bg imgs) = Max (img_w ` set imgs)" (is ?w)
    and "canvas_h (build_canvas wd ''vertical'' sp bg imgs) =
           sum_list (map img_h imgs) + sp * (int (length imgs) - 1)" (is ?h)
    and "pastes (build_canvas wd ''vertical'' sp bg imgs) =
           paste_vertical (canvas_mode (build_canvas wd ''vertical'' sp bg imgs)) sp 0 imgs" (is ?p)
proof -
  have one: "\<not> Suc 0 < length imgs \<Longrightarrow> length imgs = Suc 0"
    using assms by (cases imgs) auto
  show ?w ?h ?p
    using assms one
    by (auto simp: build_canvas_def Let_def max_list_Max split: prod.splits)
qed

lemma build_canvas_horizontal:
  assumes "imgs \<noteq> []"
  shows "canvas_h (build_canvas wd ''horizontal'' sp bg imgs) = Max (img_h ` set imgs)" (is ?w)
    and "canvas_w (build_canvas wd ''horizontal'' sp bg imgs) =
           sum_list (map img_w imgs) + sp * (int (length imgs) - 1)" (is ?h)
    and "pastes (build_canvas wd ''horizontal'' sp bg imgs) =
           paste_horizontal (canvas_mode (build_canvas wd ''horizontal'' sp bg imgs)) sp 0 imgs" (is ?p)
proof -
  have one: "\<not> Suc 0 < length imgs \<Longrightarrow> length imgs = Suc 0"
    using assms by (cases imgs) auto
  show ?w ?h ?p
    using assms one
    by (auto simp: build_canvas_def Let_def max_list_Max split: prod.splits)
qed

lemma stitch_unaligned:
  "ps \<noteq> [] \<Longrightarrow> load_all wd ps = Inr imgs \<Longrightarrow> orientation = ''vertical'' \<or> orientation = ''horizontal'' \<Longrightarrow>
   stitch_images wd ps orientation False sp bg tm = Inr (build_canvas wd orientation sp bg imgs)"
  by (auto simp: stitch_images_def align_def)

text \<open>
  C1. For a non-empty list whose images all load, composed with alignment off and a
  spacing that is not negative: stacked vertically, the canvas is as wide as the widest
  image and as high as the heights together plus the spacing between neighbours, and image \<open>k\<close> is pasted at \<open>x = 0\<close> and at \<open>y\<close> the
  heights and spacings of the images before it; side by side, the same with width and
  height exchanged.
\<close>

theorem unaligned_composition:
  assumes "ps \<noteq> []" and "load_all wd ps = Inr imgs" and "0 \<le> sp"
  shows "(\<exists>out. stitch_images wd ps ''vertical'' False sp bg tm = Inr out \<and>
            canvas_w out = Max (img_w ` set imgs) \<and>
            canvas_h out = sum_list (map img_h imgs) + sp * (int (length imgs) - 1) \<and>
            length (pastes out) = length imgs \<and>
            (\<forall>k < length imgs.
               pastes out ! k =
                 (0, (\<Sum>j<k. img_h (imgs ! j) + sp), convert (imgs ! k) (canvas_mode out)))) \<and>
         (\<exists>out. stitch_images wd ps ''horizontal'' False sp bg tm = Inr out \<and>
            canvas_h out = Max (img_h ` set imgs) \<and>
            canvas_w out = sum_list (map img_w imgs) + sp * (int (length imgs) - 1) \<and>
            length (pastes out) = length imgs \<and>
            (\<forall>k < length imgs.
               pastes out ! k =
                 ((\<Sum>j<k. img_w (imgs ! j) + sp), 0, convert (imgs ! k) (canvas_mode out))))"
proof -
  from assms have ne: "imgs \<noteq> []" using load_all_length by fastforce
  show ?thesis
  proof (intro conjI)
    show "\<exists>out. stitch_images wd ps ''vertical'' False sp bg tm = Inr out \<and>
            canvas_w out = Max (img_w ` set imgs) \<and>
            canvas_h out = sum_list (map img_h imgs) + sp * (int (length imgs) - 1) \<and>
            length (pastes out) = length imgs \<and>
            (\<forall>k < length imgs.
               pastes out ! k =
                 (0, (\<Sum>j<k. img_h (imgs ! j) + sp), convert (imgs ! k) (canvas_mode out)))"
      using stitch_unaligned [OF assms(1,2), of "''vertical''" sp bg tm]
        build_canvas_vertical [OF ne, of wd sp bg]
      by (simp add: length_paste_vertical paste_vertical_nth)
    show "\<exists>out. stitch_images wd ps ''horizontal'' False sp bg tm = Inr out \<and>
            canvas_h out = Max (img_h ` set imgs) \<and>
            canvas_w out = sum_list (map img_w imgs) + sp * (int (length imgs) - 1) \<and>
            length (pastes out) = length imgs \<and>
            (\<forall>k < length imgs.
               pastes out ! k =
                 ((\<Sum>j<k. img_w (imgs ! j) + sp), 0, convert (imgs ! k) (canvas_mode out)))"
      using stitch_unaligned [OF assms(1,2), of "''horizontal''" sp bg tm]
        build_canvas_horizontal [OF ne, of wd sp bg]
      by (simp add: length_paste_horizontal paste_horizontal_nth)
  qed
qed

theorem unaligned_composition_witness:
  "[''a.png'', ''b.jpg''] \<noteq> [] \<and> load_all demo_world [''a.png'', ''b.jpg''] = Inr [img_a, img_b] \<and>
   (\<exists>out. stitch_images demo_world [''a.png'', ''b.jpg''] ''vertical'' False 3 ''#FFFFFF'' ''max''
            = Inr out \<and>
      canvas_w out = 4 \<and> canvas_h out = 8 \<and> length (pastes out) = 2 \<and>
      pastes out ! 0 = (0, 0, convert img_a (canvas_mode out)) \<and>
      pastes out ! 1 = (0, 5, convert img_b (canvas_mode out))) \<and>
   (\<exists>out. stitch_images demo_world [''a.png'', ''b.jpg''] ''horizontal'' False 3 ''#FFFFFF'' ''max''
            = Inr out \<and>
      canvas_h out = 3 \<and> canvas_w out = 9 \<and> length (pastes out) = 2 \<and>
      pastes out ! 0 = (0, 0, convert img_a (canvas_mode out)) \<and>
      pastes out ! 1 = (7, 0, convert img_b (canvas_mode out)))"
proof -
  have ne: "[''a.png'', ''b.jpg''] \<noteq> []"
    by simp
  have ld: "load_all demo_world [''a.png'', ''b.jpg''] = Inr [img_a, img_b]"
    by code_simp
  have sz: "img_w img_a = 4" "img_h img_a = 2" "img_w img_b = 2" "img_h img_b = 3"
    by (simp_all add: img_a_def img_b_def)
  have sp: "(0::int) \<le> 3"
    by simp
  from unaligned_composition [OF ne ld sp, of "''#FFFFFF''" "''max''"] ne ld show ?thesis
    by (auto simp: sz less_2_cases_iff)
qed

lemma align_vertical_map:
  "\<forall>i \<in> set imgs. img_w i \<noteq> 0 \<Longrightarrow>
     align_vertical W imgs =
       Inr (map (\<lambda>i. if img_w i = W then i
                     else i\<lparr>img_w := W, img_h := scaled_side (img_h i) W (img_w i),
                            img_buf := Lanczos (img_buf i) W (scaled_side (img_h i) W (img_w i))\<rparr>)
              imgs)"
  by (induction imgs)
    (simp_all add: scaled_side_def Let_def resize_def double_mul_def double_of_int_def
      int_truediv_def)

lemma align_horizontal_map:
  "\<forall>i \<in> set imgs. img_h i \<noteq> 0 \<Longrightarrow>
     align_horizontal H imgs =
       Inr (map (\<lambda>i. if img_h i = H then i
                     else i\<lparr>img_w := scaled_side (img_w i) H (img_h i), img_h := H,
                            img_buf := Lanczos (img_buf i) (scaled_side (img_w i) H (img_h i)) H\<rparr>)
              imgs)"
  by (induction imgs)
    (simp_all add: scaled_side_def Let_def resize_def double_mul_def double_of_int_def
      int_truediv_def)

text \<open>
  A 10 \<times> 25 image aligned to width 23 comes out 57 high, where \<open>25 \<times> 23 / 10 = 57.5\<close> rounds
  to 58, half to even as well as half up.
\<close>

theorem aligned_composition_counterexample:
  "stitch_images tie_world [''p.png'', ''q.png''] ''vertical'' True 0 ''#FFFFFF'' ''max'' =
     Inr (build_canvas tie_world ''vertical'' 0 ''#FFFFFF''
            [\<lparr>img_w = 23, img_h = 57, img_buf = Lanczos (Decoded ''p.png'') 23 57,
              exif_orientation = 1\<rparr>, img_q]) \<and>
   max 1 (py_round (of_int (25 * 23) / of_int 10)) = 58 \<and>
   max 1 (py_round (double (of_int (25 * 23) / of_int 10))) = 58 \<and>
   max 1 \<lfloor>(of_int (25 * 23) / of_int 10 :: rat) + 1 / 2\<rfloor> = 58"
proof -
  have "stitch_images tie_world [''p.png'', ''q.png''] ''vertical'' True 0 ''#FFFFFF'' ''max'' =
     Inr (build_canvas tie_world ''vertical'' 0 ''#FFFFFF''
            [\<lparr>img_w = 23, img_h = 57, img_buf = Lanczos (Decoded ''p.png'') 23 57,
              exif_orientation = 1\<rparr>, img_q])"
    by code_simp
  moreover have "max 1 (py_round (of_int (25 * 23) / of_int 10)) = 58"
    by code_simp
  moreover have "max 1 (py_round (double (of_int (25 * 23) / of_int 10))) = 58"
    by code_simp
  moreover have "max 1 \<lfloor>(of_int (25 * 23) / of_int 10 :: rat) + 1 / 2\<rfloor> = (58::int)"
    by code_simp
  ultimately show ?thesis by blast
qed

text \<open>
  C2, amended. For a non-empty list whose images all load, with positive sizes, composed
  with alignment on and a spacing that is not negative: stacked vertically, the target
  width \<open>W\<close> is the largest width for mode \<open>max\<close> and the smallest for mode \<open>min\<close>; what is
  composed is each image of another width resampled to width \<open>W\<close> and height
  \<open>max(1, round(height \<times> (W / width)))\<close>, quotient and product in double arithmetic, and
  each image of width \<open>W\<close> itself. Side by side, the same on the height.
\<close>

theorem aligned_composition:
  assumes "ps \<noteq> []" and "load_all wd ps = Inr imgs"
    and "\<forall>i \<in> set imgs. 0 < img_w i \<and> 0 < img_h i"
    and "tm = ''max'' \<or> tm = ''min''" and "0 \<le> sp"
  shows "stitch_images wd ps ''vertical'' True sp bg tm =
           Inr (build_canvas wd ''vertical'' sp bg
                  (map (\<lambda>i. if img_w i = target_edge tm (map img_w imgs) then i
                        else i\<lparr>img_w := target_edge tm (map img_w imgs),
                               img_h := scaled_side (img_h i) (target_edge tm (map img_w imgs)) (img_w i),
                               img_buf := Lanczos (img_buf i) (target_edge tm (map img_w imgs))
                                  (scaled_side (img_h i) (target_edge tm (map img_w imgs)) (img_w i))\<rparr>)
                     imgs)) \<and>
         stitch_images wd ps ''horizontal'' True sp bg tm =
           Inr (build_canvas wd ''horizontal'' sp bg
                  (map (\<lambda>i. if img_h i = target_edge tm (map img_h imgs) then i
                        else i\<lparr>img_w := scaled_side (img_w i) (target_edge tm (map img_h imgs)) (img_h i),
                               img_h := target_edge tm (map img_h imgs),
                               img_buf := Lanczos (img_buf i)
                                  (scaled_side (img_w i) (target_edge tm (map img_h imgs)) (img_h i))
                                  (target_edge tm (map img_h imgs))\<rparr>)
                     imgs))"
proof -
  from assms have ne: "imgs \<noteq> []" using load_all_length by fastforce
  from assms(3) have w: "\<forall>i \<in> set imgs. img_w i \<noteq> 0" and h: "\<forall>i \<in> set imgs. img_h i \<noteq> 0"
    by auto
  have ev: "(if tm = ''max'' then max_list (map img_w imgs) else min_list (map img_w imgs)) =
      target_edge tm (map img_w imgs)"
    and eh: "(if tm = ''max'' then max_list (map img_h imgs) else min_list (map img_h imgs)) =
      target_edge tm (map img_h imgs)"
    using ne by (simp_all add: target_edge_def max_list_Max min_list_Min)
  have av: "align ''vertical'' True tm imgs =
      align_vertical (target_edge tm (map img_w imgs)) imgs"
    by (simp add: align_def ev)
  have ah: "align ''horizontal'' True tm imgs =
      align_horizontal (target_edge tm (map img_h imgs)) imgs"
    by (simp add: align_def eh)
  have sv: "stitch_images wd ps ''vertical'' True sp bg tm =
      (case align ''vertical'' True tm imgs of
         Inl e \<Rightarrow> Inl e
       | Inr aligned \<Rightarrow> Inr (build_canvas wd ''vertical'' sp bg aligned))"
    using assms(1,2) by (simp add: stitch_images_def)
  have sh: "stitch_images wd ps ''horizontal'' True sp bg tm =
      (case align ''horizontal'' True tm imgs of
         Inl e \<Rightarrow> Inl e
       | Inr aligned \<Rightarrow> Inr (build_canvas wd ''horizontal'' sp bg aligned))"
    using assms(1,2) by (simp add: stitch_images_def)
  show ?thesis
    by (simp only: sv sh av ah align_vertical_map [OF w] align_horizontal_map [OF h] sum.case)
qed

theorem aligned_composition_witness:
  "load_all tie_world [''p.png'', ''q.png''] = Inr [img_p, img_q] \<and>
   stitch_images tie_world [''p.png'', ''q.png''] ''vertical'' True 0 ''#FFFFFF'' ''max'' =
     Inr (build_canvas tie_world ''vertical'' 0 ''#FFFFFF''
            [\<lparr>img_w = 23, img_h = 57, img_buf = Lanczos (Decoded ''p.png'') 23 57,
              exif_orientation = 1\<rparr>, img_q]) \<and>
   stitch_images tie_world [''p.png'', ''q.png''] ''horizontal'' True 0 ''#FFFFFF'' ''min'' =
     Inr (build_canvas tie_world ''horizontal'' 0 ''#FFFFFF''
            [\<lparr>img_w = 1, img_h = 1, img_buf = Lanczos (Decoded ''p.png'') 1 1,
              exif_orientation = 1\<rparr>, img_q])"
proof -
  have ne: "[''p.png'', ''q.png''] \<noteq> []"
    by simp
  have ld: "load_all tie_world [''p.png'', ''q.png''] = Inr [img_p, img_q]"
    by code_simp
  have pos: "\<forall>i \<in> set [img_p, img_q]. 0 < img_w i \<and> 0 < img_h i"
    by (simp add: img_p_def img_q_def)
  have mx: "''max'' = ''max'' \<or> ''max'' = ''min''" and mn: "''min'' = ''max'' \<or> ''min'' = ''min''"
    by simp_all
  have sp: "(0::int) \<le> 0"
    by simp
  have av: "map (\<lambda>i. if img_w i = target_edge ''max'' (map img_w [img_p, img_q]) then i
                        else i\<lparr>img_w := target_edge ''max'' (map img_w [img_p, img_q]),
                               img_h := scaled_side (img_h i) (target_edge ''max'' (map img_w [img_p, img_q])) (img_w i),
                               img_buf := Lanczos (img_buf i) (target_edge ''max'' (map img_w [img_p, img_q]))
                                  (scaled_side (img_h i) (target_edge ''max'' (map img_w [img_p, img_q])) (img_w i))\<rparr>)
                     [img_p, img_q]
     = [\<lparr>img_w = 23, img_h = 57, img_buf = Lanczos (Decoded ''p.png'') 23 57,
              exif_orientation = 1\<rparr>, img_q]"
    by code_simp
  have ah: "map (\<lambda>i. if img_h i = target_edge ''min'' (map img_h [img_p, img_q]) then i
                        else i\<lparr>img_w := scaled_side (img_w i) (target_edge ''min'' (map img_h [img_p, img_q])) (img_h i),
                               img_h := target_edge ''min'' (map img_h [img_p, img_q]),
                               img_buf := Lanczos (img_buf i)
                                  (scaled_side (img_w i) (target_edge ''min'' (map img_h [img_p, img_q])) (img_h i))
                                  (target_edge ''min'' (map img_h [img_p, img_q]))\<rparr>)
                     [img_p, img_q]
     = [\<lparr>img_w = 1, img_h = 1, img_buf = Lanczos (Decoded ''p.png'') 1 1,
              exif_orientation = 1\<rparr>, img_q]"
    by code_simp
  from aligned_composition [OF ne ld pos mx sp, of "''#FFFFFF''", THEN conjunct1]
    aligned_composition [OF ne ld pos mn sp, of "''#FFFFFF''", THEN conjunct2] ld
  show ?thesis
    by (simp only: av ah)
qed

section \<open>A failed preview recompute\<close>

text \<open>
  With a composed image on show and a negative spacing, the recompute returns at once: the
  image stays cached and drawn and no failure marker appears.
\<close>

theorem stale_preview_counterexample:
  "preview_img_full (render_preview_full demo_world (demo_showing\<lparr>var_spacing := Some (- 1)\<rparr>))
     = Some demo_composed \<and>
   canvas_item (render_preview_full demo_world (demo_showing\<lparr>var_spacing := Some (- 1)\<rparr>))
     = Some demo_display \<and>
   size_label (render_preview_full demo_world (demo_showing\<lparr>var_spacing := Some (- 1)\<rparr>))
     \<noteq> LabelFailed"
  by (simp add: render_preview_full_def demo_showing_def demo_app_def Let_def)

text \<open>
  C5, amended. With a non-empty list and the live preview on: when the spacing is valid and
  composing fails, the cached image is dropped, the canvas is emptied and the failure
  marker is shown; when the spacing is invalid (unreadable or negative) the recompute is
  skipped and the preview stays as it was.
\<close>

theorem preview_failure:
  assumes "paths st \<noteq> []" and "live_preview_enabled st"
  shows "(\<forall>s e. var_spacing st = Some s \<and> 0 \<le> s \<and>
            stitch_images wd (paths st) (var_orient st) (var_scale st) s (var_bg st)
              (var_target_mode st) = Inl e \<longrightarrow>
            preview_img_full (render_preview_full wd st) = None \<and>
            canvas_item (render_preview_full wd st) = None \<and>
            size_label (render_preview_full wd st) = LabelFailed) \<and>
         ((var_spacing st = None \<or> (\<exists>s. var_spacing st = Some s \<and> s < 0)) \<longrightarrow>
            render_preview_full wd st = st\<lparr>preview_job := False\<rparr>)"
  using assms by (auto simp: render_preview_full_def Let_def)

theorem preview_failure_witness:
  "preview_img_full (render_preview_full demo_world (demo_showing\<lparr>var_orient := ''diagonal''\<rparr>)) = None \<and>
   canvas_item (render_preview_full demo_world (demo_showing\<lparr>var_orient := ''diagonal''\<rparr>)) = None \<and>
   size_label (render_preview_full demo_world (demo_showing\<lparr>var_orient := ''diagonal''\<rparr>)) = LabelFailed \<and>
   render_preview_full demo_world (demo_showing\<lparr>var_spacing := None\<rparr>)
     = demo_showing\<lparr>var_spacing := None, preview_job := False\<rparr>"
proof -
  let ?a = "demo_showing\<lparr>var_orient := ''diagonal''\<rparr>"
  let ?b = "demo_showing\<lparr>var_spacing := None\<rparr>"
  have a: "paths ?a \<noteq> []" "live_preview_enabled ?a" "var_spacing ?a = Some 0"
    and b: "paths ?b \<noteq> []" "live_preview_enabled ?b" "var_spacing ?b = None"
    by (simp_all add: demo_showing_def demo_app_def)
  have f: "stitch_images demo_world (paths ?a) (var_orient ?a) (var_scale ?a) 0 (var_bg ?a)
             (var_target_mode ?a) = Inl InvalidOrientation"
    by code_simp
  from preview_failure [OF a(1,2), of demo_world] a(3) f
    preview_failure [OF b(1,2), of demo_world] b(3)
  show ?thesis by simp
qed

section \<open>Where the extension is checked\<close>




section \<open>The scaled preview\<close>

text \<open>
  A 10 \<times> 10 image at scale 0.26 is shown 2 \<times> 2, not 3 \<times> 3; at scale 5 it is shown
  30 \<times> 30, not 50 \<times> 50.
\<close>

theorem render_scaled_counterexample:
  "canvas_item (render_preview_scaled (demo_showing\<lparr>preview_scale := double (26 / 100)\<rparr>))
     = Some \<lparr>disp_w = 2, disp_h = 2, disp_src = demo_composed\<rparr> \<and>
   max 1 (py_round (double (double (of_int (canvas_w demo_composed)) * double (26 / 100)))) = 3 \<and>
   canvas_item (render_preview_scaled (demo_showing\<lparr>preview_scale := 5\<rparr>))
     = Some \<lparr>disp_w = 30, disp_h = 30, disp_src = demo_composed\<rparr> \<and>
   max 1 (py_round (double (double (of_int (canvas_w demo_composed)) * 5))) = 50"
  by code_simp

text \<open>
  C8, amended. With a composed image cached and the live preview on, the display buffer is
  \<open>max(1, int(width \<times> s))\<close> by \<open>max(1, int(height \<times> s))\<close>, where \<open>s\<close> is the scale kept
  between 0.05 and 3, the product is a double and \<open>int\<close> cuts its fraction off; the composed
  image stays as it was.
\<close>

theorem render_scaled:
  assumes "preview_img_full st = Some full" and "live_preview_enabled st"
  shows "canvas_item (render_preview_scaled st) =
           Some \<lparr>disp_w = max 1 (py_int (double (double (of_int (canvas_w full)) *
                                  clamp (preview_scale st) (double (5 / 100)) 3))),
                 disp_h = max 1 (py_int (double (double (of_int (canvas_h full)) *
                                  clamp (preview_scale st) (double (5 / 100)) 3))),
                 disp_src = full\<rparr> \<and>
         preview_img_full (render_preview_scaled st) = Some full"
  using assms
  by (simp add: render_preview_scaled_def scaled_size_def Let_def clamp_def double_mul_def
      double_of_int_def)

theorem render_scaled_witness:
  "canvas_item (render_preview_scaled
      (demo_showing\<lparr>preview_img_full := Some (demo_composed\<lparr>canvas_w := 22\<rparr>),
                    preview_scale := fit_scale 50 22\<rparr>)) =
     Some \<lparr>disp_w = 48, disp_h = 22, disp_src = demo_composed\<lparr>canvas_w := 22\<rparr>\<rparr> \<and>
   preview_img_full (render_preview_scaled
      (demo_showing\<lparr>preview_img_full := Some (demo_composed\<lparr>canvas_w := 22\<rparr>),
                    preview_scale := fit_scale 50 22\<rparr>)) = Some (demo_composed\<lparr>canvas_w := 22\<rparr>)"
proof -
  let ?full = "demo_composed\<lparr>canvas_w := 22\<rparr>"
  let ?st = "demo_showing\<lparr>preview_img_full := Some ?full, preview_scale := fit_scale 50 22\<rparr>"
  have h: "preview_img_full ?st = Some ?full" "live_preview_enabled ?st"
    by (simp_all add: demo_showing_def demo_app_def)
  have v: "max 1 (py_int (double (double (of_int (canvas_w ?full)) *
                                  clamp (preview_scale ?st) (double (5 / 100)) 3))) = 48"
    "max 1 (py_int (double (double (of_int (canvas_h ?full)) *
                                  clamp (preview_scale ?st) (double (5 / 100)) 3))) = 22"
    by code_simp+
  from render_scaled [OF h] show ?thesis
    by (simp only: v)
qed

end
